theory Spec2Isabelle
  imports Main "HOL-Library.Sublist"
begin

section \<open>Values shared by the embedding\<close>

text \<open>
  A Go string and a Go byte slice are both byte sequences, modelled as \<open>string\<close>
  (a list of 8-bit characters). A Go \<open>error\<close> is an interface value; the two kinds
  of error the package meets are the sentinel \<open>io.EOF\<close>, which the code compares by
  identity, and errors built from a message (\<open>errors.New\<close>, \<open>fmt.Errorf\<close>,
  and whatever an encoder reports). A nil error is \<open>None\<close> of \<open>error option\<close>.
\<close>

datatype error = io_EOF | errorString string

fun Error :: "error \<Rightarrow> string" where
  "Error io_EOF = ''EOF''"
| "Error (errorString s) = s"

text \<open>
  A run-time panic of the Go program carries the value given to \<open>panic\<close>, which
  may be any Go value. The program observes two things of such a value: whether it is
  nil, and the text that package \<open>fmt\<close> writes for it. So a panic value is nil
  (\<open>FNil\<close>); or a string of ASCII bytes (\<open>FStr\<close>) or an error value with a
  message of ASCII bytes (\<open>FErr\<close>), for which the text that \<open>fmt\<close> writes is
  defined below; or any other value, of any type, including a string or a message with
  bytes from 128 on (\<open>FOther\<close>), which is given by the two texts that \<open>fmt\<close>
  writes for it under the verbs \<open>%q\<close> and \<open>%v\<close>. For example \<open>panic(42)\<close>
  is \<open>FOther\<close> with the texts \<open>'*'\<close> and \<open>42\<close>. A string of ASCII bytes
  is a \<open>String.literal\<close>. The two panics that the modelled functions can raise
  themselves carry a \<open>runtime.Error\<close>, which is an error value.
\<close>

datatype fault = FNil | FStr String.literal | FErr String.literal | FOther string string

definition SliceBounds :: fault where
  "SliceBounds = FErr (STR ''runtime error: slice bounds out of range'')"

definition DivideByZero :: fault where
  "DivideByZero = FErr (STR ''runtime error: integer divide by zero'')"

section \<open>Response bodies (response.go)\<close>

subsection \<open>The readers of the standard library\<close>

text \<open>
  \<open>io.ReadSeeker\<close> is an interface. The values the package stores behind it are
  \<open>*strings.Reader\<close>, \<open>*bytes.Reader\<close> and its own \<open>SlowReader\<close>, which wraps
  another \<open>io.ReadSeeker\<close>. A standard reader is its package, its content \<open>s\<close>
  and its read position \<open>i\<close> (\<open>strings.NewReader\<close> and \<open>bytes.NewReader\<close>
  start at position 0); a \<open>SlowReader\<close> is its fields \<open>delay\<close> (nanoseconds, a
  \<open>time.Duration\<close>) and \<open>r\<close>.
\<close>

datatype std_kind = of_strings | of_bytes

datatype ReadSeeker =
    Reader std_kind string nat
  | SlowReader int ReadSeeker

abbreviation strings_NewReader :: "string \<Rightarrow> ReadSeeker" where
  "strings_NewReader s \<equiv> Reader of_strings s 0"

abbreviation bytes_NewReader :: "string \<Rightarrow> ReadSeeker" where
  "bytes_NewReader s \<equiv> Reader of_bytes s 0"

text \<open>
  What one \<open>Read(p)\<close> gives back: the bytes copied to the front of \<open>p\<close> (the
  returned \<open>n\<close> is their number), the returned error, the nanoseconds spent in
  \<open>time.Sleep\<close> during the call, and the reader afterwards. The buffer \<open>p\<close> is
  given by its length; its capacity is taken equal to its length.
\<close>

record 'r read_result =
  rd_data :: string
  rd_err :: "error option"
  rd_slept :: int
  rd_after :: 'r

text \<open>
  \<open>(*strings.Reader).Read\<close> and \<open>(*bytes.Reader).Read\<close>: at or past the end,
  \<open>(0, io.EOF)\<close>; otherwise \<open>copy(b, r.s[r.i:])\<close> and the position advances.
\<close>

definition std_Read :: "string \<Rightarrow> nat \<Rightarrow> nat \<Rightarrow> string \<times> error option \<times> nat" where
  "std_Read s i len_p =
     (if i \<ge> length s then ([], Some io_EOF, i)
      else (let bs = take len_p (drop i s) in (bs, None, i + length bs)))"

text \<open>
  \<open>Seek(offset, whence)\<close> of the standard readers: the new absolute position, or
  an error for an unknown \<open>whence\<close> or a negative position (the position is then
  unchanged).
\<close>

fun Reader_name :: "std_kind \<Rightarrow> string" where
  "Reader_name of_strings = ''strings.Reader''"
| "Reader_name of_bytes = ''bytes.Reader''"

definition std_Seek ::
  "std_kind \<Rightarrow> string \<Rightarrow> nat \<Rightarrow> int \<Rightarrow> int \<Rightarrow> (int \<times> error option) \<times> nat" where
  "std_Seek kd s i offset whence =
     (if whence \<noteq> 0 \<and> whence \<noteq> 1 \<and> whence \<noteq> 2
      then ((0, Some (errorString (Reader_name kd @ ''.Seek: invalid whence''))), i)
      else (let abs = (if whence = 0 then offset
                       else if whence = 1 then int i + offset
                       else int (length s) + offset)
            in if abs < 0
               then ((0, Some (errorString (Reader_name kd @ ''.Seek: negative position''))), i)
               else ((abs, None), nat abs)))"

text \<open>\<open>time.Sleep(d)\<close> returns at once when \<open>d\<close> is zero or negative.\<close>

definition Sleep :: "int \<Rightarrow> int" where
  "Sleep d = (if d \<le> 0 then 0 else d)"

subsection \<open>SlowReader\<close>

text \<open>
  \<open>func (sr SlowReader) Read(p []byte) (int, error)\<close>: sleep \<open>sr.delay\<close>, then
  read into \<open>p[:1]\<close>. Slicing an empty buffer to length one is a run-time panic.
  The function below is \<open>Read\<close> of every \<open>io.ReadSeeker\<close> of the model; its second
  equation is the method of \<open>SlowReader\<close>.
\<close>

fun rs_Read :: "ReadSeeker \<Rightarrow> nat \<Rightarrow> fault + ReadSeeker read_result" where
  "rs_Read (Reader kd s i) len_p =
     (case std_Read s i len_p of (bs, e, i') \<Rightarrow>
        Inr \<lparr>rd_data = bs, rd_err = e, rd_slept = 0, rd_after = Reader kd s i'\<rparr>)"
| "rs_Read (SlowReader delay r) len_p =
     (if len_p < 1 then Inl SliceBounds
      else (case rs_Read r 1 of
              Inl f \<Rightarrow> Inl f
            | Inr res \<Rightarrow>
                Inr \<lparr>rd_data = rd_data res, rd_err = rd_err res, rd_slept = Sleep delay + rd_slept res,
                     rd_after = SlowReader delay (rd_after res)\<rparr>))"

text \<open>\<open>func (sr SlowReader) Seek(offset int64, whence int) (int64, error)\<close>.\<close>

fun rs_Seek :: "ReadSeeker \<Rightarrow> int \<Rightarrow> int \<Rightarrow> (int \<times> error option) \<times> ReadSeeker" where
  "rs_Seek (Reader kd s i) offset whence =
     (case std_Seek kd s i offset whence of (res, i') \<Rightarrow> (res, Reader kd s i'))"
| "rs_Seek (SlowReader delay r) offset whence =
     (case rs_Seek r offset whence of (res, r') \<Rightarrow> (res, SlowReader delay r'))"

text \<open>
  \<open>func NewSlowReader(r io.ReadSeeker, bps int) io.ReadSeeker\<close>. The delay is
  \<open>time.Second / time.Duration(bps)\<close>: a division of 64-bit integers that truncates
  towards zero and panics when \<open>bps\<close> is zero. \<open>time.Second\<close> is \<open>10^9\<close>
  nanoseconds.
\<close>

definition Second :: int where
  "Second = 1000000000"

definition go_quot :: "int \<Rightarrow> int \<Rightarrow> fault + int" where
  "go_quot a b =
     (if b = 0 then Inl DivideByZero
      else Inr (sgn a * sgn b * (\<bar>a\<bar> div \<bar>b\<bar>)))"

definition NewSlowReader :: "ReadSeeker \<Rightarrow> int \<Rightarrow> fault + ReadSeeker" where
  "NewSlowReader r bps =
     (case go_quot Second bps of
        Inl f \<Rightarrow> Inl f
      | Inr delay \<Rightarrow> Inr (SlowReader delay r))"

subsection \<open>dummyReadCloser\<close>

text \<open>\<open>type dummyReadCloser struct { body io.ReadSeeker }\<close>; the field is
  \<open>drc_body\<close> here.\<close>

datatype dummyReadCloser = dummyReadCloser (drc_body: ReadSeeker)

text \<open>
  \<open>func (d *dummyReadCloser) Read(p []byte) (n int, err error)\<close>: read from the
  body; when the body reports \<open>io.EOF\<close>, seek it back to the start; return what
  the body returned.
\<close>

definition drc_Read :: "dummyReadCloser \<Rightarrow> nat \<Rightarrow> fault + dummyReadCloser read_result" where
  "drc_Read d len_p =
     (case rs_Read (drc_body d) len_p of
        Inl f \<Rightarrow> Inl f
      | Inr res \<Rightarrow>
          (let b = (if rd_err res = Some io_EOF then snd (rs_Seek (rd_after res) 0 0)
                    else rd_after res)
           in Inr \<lparr>rd_data = rd_data res, rd_err = rd_err res, rd_slept = rd_slept res,
                   rd_after = dummyReadCloser b\<rparr>))"

text \<open>\<open>func (d *dummyReadCloser) Close() error\<close>\<close>

definition drc_Close :: "dummyReadCloser \<Rightarrow> error option" where
  "drc_Close d = None"

text \<open>\<open>NewRespBodyFromString\<close>, \<open>NewRespBodyFromBytes\<close>, \<open>NewSlowRespBodyFromString\<close>.\<close>

definition NewRespBodyFromString :: "string \<Rightarrow> dummyReadCloser" where
  "NewRespBodyFromString body = dummyReadCloser (strings_NewReader body)"

definition NewRespBodyFromBytes :: "string \<Rightarrow> dummyReadCloser" where
  "NewRespBodyFromBytes body = dummyReadCloser (bytes_NewReader body)"

definition NewSlowRespBodyFromString :: "string \<Rightarrow> fault + dummyReadCloser" where
  "NewSlowRespBodyFromString body =
     (case NewSlowReader (strings_NewReader body) 4096 of
        Inl f \<Rightarrow> Inl f
      | Inr r \<Rightarrow> Inr (dummyReadCloser r))"

subsection \<open>Reading a body to its end\<close>

text \<open>
  The client of a body is the loop of \<open>ioutil.ReadAll\<close>: call \<open>Read\<close> until it
  returns an error, collect the bytes, and do not report \<open>io.EOF\<close> as an error. The
  loop offers a buffer of \<open>Suc k\<close> bytes (\<open>ReadAll\<close> never offers an empty one).
  Besides the bytes the result counts the \<open>Read\<close> calls and adds up the time slept.
\<close>

record drained =
  bytes :: string
  reads :: nat
  elapsed :: int
  stopped :: "error option"
  rest :: dummyReadCloser

fun remaining :: "ReadSeeker \<Rightarrow> nat" where
  "remaining (Reader kd s i) = length s - i"
| "remaining (SlowReader delay r) = remaining r"

lemma rs_Read_progress:
  "rs_Read r (Suc k) = Inr res \<Longrightarrow> rd_err res = None \<Longrightarrow> remaining (rd_after res) < remaining r"
proof (induction r arbitrary: k res)
  case (Reader kd s i)
  then show ?case by (auto simp: std_Read_def Let_def split: if_splits)
next
  case (SlowReader delay r)
  then show ?case by (auto split: sum.splits)
qed

lemma drc_Read_progress:
  "drc_Read d (Suc k) = Inr res \<Longrightarrow> rd_err res = None \<Longrightarrow>
     remaining (drc_body (rd_after res)) < remaining (drc_body d)"
  by (auto simp: drc_Read_def Let_def split: sum.splits dest: rs_Read_progress)

function drain :: "nat \<Rightarrow> dummyReadCloser \<Rightarrow> fault + drained" where
  "drain k d =
     (case drc_Read d (Suc k) of
        Inl f \<Rightarrow> Inl f
      | Inr res \<Rightarrow>
          (case rd_err res of
             Some e \<Rightarrow>
               Inr \<lparr>bytes = rd_data res, reads = 1, elapsed = rd_slept res,
                    stopped = (if e = io_EOF then None else Some e), rest = rd_after res\<rparr>
           | None \<Rightarrow>
               (case drain k (rd_after res) of
                  Inl f \<Rightarrow> Inl f
                | Inr t \<Rightarrow>
                    Inr (t\<lparr>bytes := rd_data res @ bytes t, reads := Suc (reads t),
                           elapsed := rd_slept res + elapsed t\<rparr>))))"
  by pat_completeness auto
termination
  by (relation "measure (\<lambda>(k, d). remaining (drc_body d))") (auto dest: drc_Read_progress)

declare drain.simps [simp del]

section \<open>Requests, responses and responders\<close>

text \<open>
  The package reads one field of \<open>*http.Request\<close>: \<open>Cancel\<close>, a receive-only
  channel that is nil or that the caller closes to cancel the request. A channel is
  named by a number. Of \<open>http.Response\<close> the package sets four fields; \<open>Body\<close> is
  always one of its own \<open>*dummyReadCloser\<close>, and \<open>Header\<close> is a map from
  canonical keys to value lists. A \<open>*http.Response\<close> may be nil: \<open>response option\<close>.
\<close>

type_synonym chan = nat

record request =
  Cancel :: "chan option"

record response =
  Status :: string
  StatusCode :: int
  Body :: dummyReadCloser
  Header :: "string \<rightharpoonup> string list"

text \<open>
  \<open>type Responder func(*http.Request) (*http.Response, error)\<close>. A call of a Go
  function returns its results, panics with a value, or never returns.
\<close>

datatype call = Returns "response option" "error option" | Panics fault | Hangs

type_synonym Responder = "request \<Rightarrow> call"

subsection \<open>Functions of the standard library used by the builders\<close>

text \<open>\<open>strconv.Itoa\<close>: the decimal digits of an integer, with a minus sign if negative.\<close>

definition digit_char :: "nat \<Rightarrow> char" where
  "digit_char n = char_of (48 + n)"

fun nat_digits :: "nat \<Rightarrow> string" where
  "nat_digits n =
     (if n < 10 then [digit_char n] else nat_digits (n div 10) @ [digit_char (n mod 10)])"

declare nat_digits.simps [simp del]

definition Itoa :: "int \<Rightarrow> string" where
  "Itoa i = (if i < 0 then CHR ''-'' # nat_digits (nat (- i)) else nat_digits (nat i))"

text \<open>
  \<open>http.Header.Set(key, value)\<close> stores the one-element list \<open>[value]\<close> under
  \<open>textproto.CanonicalMIMEHeaderKey(key)\<close>: a key made of token bytes only gets an
  upper-case letter first and after each hyphen and lower-case letters elsewhere; any
  other key is left as it is.
\<close>

definition is_lower :: "char \<Rightarrow> bool" where
  "is_lower c = (97 \<le> (of_char c :: nat) \<and> (of_char c :: nat) \<le> 122)"

definition is_upper :: "char \<Rightarrow> bool" where
  "is_upper c = (65 \<le> (of_char c :: nat) \<and> (of_char c :: nat) \<le> 90)"

definition is_digit :: "char \<Rightarrow> bool" where
  "is_digit c = (48 \<le> (of_char c :: nat) \<and> (of_char c :: nat) \<le> 57)"

definition validHeaderFieldByte :: "char \<Rightarrow> bool" where
  "validHeaderFieldByte c =
     (is_lower c \<or> is_upper c \<or> is_digit c \<or> c \<in> set ''!#$%&'*+-.^_`|~'')"

fun canonical :: "bool \<Rightarrow> string \<Rightarrow> string" where
  "canonical upper [] = []"
| "canonical upper (c # cs) =
     (let c' = (if upper \<and> is_lower c then char_of (of_char c - (32::nat))
                else if \<not> upper \<and> is_upper c then char_of (of_char c + (32::nat))
                else c)
      in c' # canonical (c' = CHR ''-'') cs)"

definition CanonicalMIMEHeaderKey :: "string \<Rightarrow> string" where
  "CanonicalMIMEHeaderKey s = (if list_all validHeaderFieldByte s then canonical True s else s)"

definition Header_Set ::
  "(string \<rightharpoonup> string list) \<Rightarrow> string \<Rightarrow> string \<Rightarrow> (string \<rightharpoonup> string list)" where
  "Header_Set h key v = h(CanonicalMIMEHeaderKey key \<mapsto> [v])"

subsection \<open>The builders (response.go)\<close>

text \<open>\<open>func ResponderFromResponse(resp *http.Response) Responder\<close>\<close>

definition ResponderFromResponse :: "response option \<Rightarrow> Responder" where
  "ResponderFromResponse resp = (\<lambda>req. Returns resp None)"

text \<open>\<open>func NewStringResponse(status int, body string) *http.Response\<close>\<close>

definition NewStringResponse :: "int \<Rightarrow> string \<Rightarrow> response" where
  "NewStringResponse status body =
     \<lparr>Status = Itoa status, StatusCode = status,
      Body = NewRespBodyFromString body, Header = Map.empty\<rparr>"

text \<open>\<open>func NewStringResponder(status int, body string) Responder\<close>\<close>

definition NewStringResponder :: "int \<Rightarrow> string \<Rightarrow> Responder" where
  "NewStringResponder status body = ResponderFromResponse (Some (NewStringResponse status body))"

text \<open>\<open>func NewBytesResponse(status int, body []byte) *http.Response\<close>\<close>

definition NewBytesResponse :: "int \<Rightarrow> string \<Rightarrow> response" where
  "NewBytesResponse status body =
     \<lparr>Status = Itoa status, StatusCode = status,
      Body = NewRespBodyFromBytes body, Header = Map.empty\<rparr>"

text \<open>
  \<open>func NewJsonResponse(status int, body interface{}) (*http.Response, error)\<close>.
  \<open>json.Marshal\<close> is a parameter: a function from the value to the pair
  \<open>([]byte, error)\<close> that it returns.
\<close>

definition NewJsonResponse ::
  "('a \<Rightarrow> string \<times> error option) \<Rightarrow> int \<Rightarrow> 'a \<Rightarrow> response option \<times> error option" where
  "NewJsonResponse json_Marshal status body =
     (case json_Marshal body of (encoded, err) \<Rightarrow>
        if err \<noteq> None then (None, err)
        else (let response = NewBytesResponse status encoded;
                  response = response\<lparr>Header :=
                    Header_Set (Header response) ''Content-Type'' ''application/json''\<rparr>
              in (Some response, None)))"

text \<open>
  \<open>func NewXmlResponse(status int, body interface{}) (*http.Response, error)\<close>,
  with \<open>xml.Marshal\<close> as a parameter.
\<close>

definition NewXmlResponse ::
  "('a \<Rightarrow> string \<times> error option) \<Rightarrow> int \<Rightarrow> 'a \<Rightarrow> response option \<times> error option" where
  "NewXmlResponse xml_Marshal status body =
     (case xml_Marshal body of (encoded, err) \<Rightarrow>
        if err \<noteq> None then (None, err)
        else (let response = NewBytesResponse status encoded;
                  response = response\<lparr>Header :=
                    Header_Set (Header response) ''Content-Type'' ''application/xml''\<rparr>
              in (Some response, None)))"

text \<open>
  \<open>func NewSlowStringResponse(status int, body string) *http.Response\<close> and
  \<open>func NewSlowStringResponder(delay time.Duration, status int, body string) Responder\<close>.
  Both pass on a panic of \<open>NewSlowReader\<close>.
\<close>

definition NewSlowStringResponse :: "int \<Rightarrow> string \<Rightarrow> fault + response" where
  "NewSlowStringResponse status body =
     (case NewSlowRespBodyFromString body of
        Inl f \<Rightarrow> Inl f
      | Inr b \<Rightarrow>
          Inr \<lparr>Status = Itoa status, StatusCode = status, Body = b, Header = Map.empty\<rparr>)"

definition NewSlowStringResponder :: "int \<Rightarrow> int \<Rightarrow> string \<Rightarrow> fault + Responder" where
  "NewSlowStringResponder delay status body =
     (case NewSlowStringResponse status body of
        Inl f \<Rightarrow> Inl f
      | Inr resp \<Rightarrow> Inr (ResponderFromResponse (Some resp)))"

section \<open>runCancelable\<close>

subsection \<open>Formatting the recovered value\<close>

text \<open>
  \<open>fmt.Errorf("panic in responder: got %q", err)\<close> formats the recovered value with
  the verb \<open>%q\<close>: a string, and the message of an error value, are written by
  \<open>strconv.Quote\<close>, in double quotes with Go escapes. \<open>Quote\<close> below is that
  function on strings of ASCII bytes, where every byte is one character: a double quote
  and a backslash get a backslash, a printable byte is copied, and a control byte is
  written as its letter escape or as a hexadecimal escape; \<open>quote_byte\<close> is applied
  to the bytes of such strings only. (What \<open>strconv.Quote\<close>
  does with bytes from 128 on depends on their UTF-8 decoding and on the Unicode tables;
  such strings are values of the kind \<open>FOther\<close>.) The verb \<open>%v\<close> writes the
  string, or the error's message, as it is. For a value of another type both texts are
  part of the value.
\<close>

definition backslash :: char where
  "backslash = CHR 0x5C"

definition dquote :: char where
  "dquote = CHR 0x22"

definition hex_digit :: "nat \<Rightarrow> char" where
  "hex_digit n = ''0123456789abcdef'' ! (n mod 16)"

definition quote_byte :: "char \<Rightarrow> string" where
  "quote_byte c =
     (let n = (of_char c :: nat) in
      if c = dquote \<or> c = backslash then [backslash, c]
      else if 32 \<le> n \<and> n < 127 then [c]
      else if n = 7 then [backslash, CHR ''a'']
      else if n = 8 then [backslash, CHR ''b'']
      else if n = 12 then [backslash, CHR ''f'']
      else if n = 10 then [backslash, CHR ''n'']
      else if n = 13 then [backslash, CHR ''r'']
      else if n = 9 then [backslash, CHR ''t'']
      else if n = 11 then [backslash, CHR ''v'']
      else [backslash, CHR ''x'', hex_digit (n div 16), hex_digit n])"

definition Quote :: "String.literal \<Rightarrow> string" where
  "Quote s = dquote # concat (map quote_byte (String.explode s)) @ [dquote]"

fun fmt_q :: "fault \<Rightarrow> string" where
  "fmt_q FNil = ''%!q(<nil>)''"
| "fmt_q (FStr s) = Quote s"
| "fmt_q (FErr m) = Quote m"
| "fmt_q (FOther q v) = q"


subsection \<open>The three tasks and their shared channels\<close>

text \<open>
  \<open>type result struct { response *http.Response; err error }\<close> is a pair. The
  function is embedded as a transition system. Its state holds the program point of
  the invoker (the goroutine that called \<open>runCancelable\<close>), of the watcher (the
  goroutine started at line 25) and of the executor (the goroutine started at line 36),
  the buffers of the two channels, and whether the caller has closed \<open>req.Cancel\<close>.
  Program points are named by the line of cancel.go at which the task stands.
\<close>

type_synonym result = "response option \<times> error option"

datatype invoker_pc =
    M15
  | M16
  | M22
  | M23
  | M25
  | M36
  | M53
  | M57 result
  | Returned result
  | Panicked fault

datatype watcher_pc = W0 | W26 | W28 | W_sent | W_stood

datatype executor_pc =
    E0
  | E46
  | E47 result
  | E38 fault
  | E39 fault
  | E_sent
  | E_silent

record state =
  mpc :: invoker_pc
  wpc :: watcher_pc
  epc :: executor_pc
  resultch :: "result list"
  donech :: "unit list"
  closed :: bool

text \<open>
  Both channels are made with capacity one. A send on a buffered channel proceeds when
  the buffer has room and blocks otherwise; a receive proceeds when the buffer holds a
  value and blocks otherwise. A blocked step is \<open>None\<close>.
\<close>

definition send :: "'a list \<Rightarrow> 'a \<Rightarrow> 'a list option" where
  "send buf v = (if length buf < 1 then Some (buf @ [v]) else None)"

definition recv :: "'a list \<Rightarrow> ('a \<times> 'a list) option" where
  "recv buf = (case buf of [] \<Rightarrow> None | v # vs \<Rightarrow> Some (v, vs))"

text \<open>The result written at lines 28 to 31, and the one written at lines 39 to 42.\<close>

definition canceled :: result where
  "canceled = (None, Some (errorString ''request canceled''))"

definition recovered :: "fault \<Rightarrow> result" where
  "recovered v = (None, Some (errorString (''panic in responder: got '' @ fmt_q v)))"

text \<open>
  The invoker. Line 15 tests \<open>req.Cancel\<close>. At line 16 the responder runs in the
  invoker itself: its results are returned, its panic unwinds into the caller, and if it
  never returns neither does \<open>runCancelable\<close>. Lines 22 and 23 make the channels,
  lines 25 and 36 start the goroutines, line 53 receives, line 57 sends on \<open>done\<close>,
  line 59 returns.
\<close>

definition invoker_step :: "Responder \<Rightarrow> request \<Rightarrow> state \<Rightarrow> state option" where
  "invoker_step responder req s =
     (case mpc s of
        M15 \<Rightarrow> Some (s\<lparr>mpc := (if Cancel req = None then M16 else M22)\<rparr>)
      | M16 \<Rightarrow>
          (case responder req of
             Returns response err \<Rightarrow> Some (s\<lparr>mpc := Returned (response, err)\<rparr>)
           | Panics v \<Rightarrow> Some (s\<lparr>mpc := Panicked v\<rparr>)
           | Hangs \<Rightarrow> None)
      | M22 \<Rightarrow> Some (s\<lparr>mpc := M23, resultch := []\<rparr>)
      | M23 \<Rightarrow> Some (s\<lparr>mpc := M25, donech := []\<rparr>)
      | M25 \<Rightarrow> Some (s\<lparr>mpc := M36, wpc := W26\<rparr>)
      | M36 \<Rightarrow> Some (s\<lparr>mpc := M53, epc := E46\<rparr>)
      | M53 \<Rightarrow>
          (case recv (resultch s) of
             None \<Rightarrow> None
           | Some (r, buf) \<Rightarrow> Some (s\<lparr>mpc := M57 r, resultch := buf\<rparr>))
      | M57 r \<Rightarrow>
          (case send (donech s) () of
             None \<Rightarrow> None
           | Some buf \<Rightarrow> Some (s\<lparr>mpc := Returned r, donech := buf\<rparr>))
      | Returned r \<Rightarrow> None
      | Panicked v \<Rightarrow> None)"

text \<open>
  The watcher (lines 25 to 34). Its \<open>select\<close> may take \<open>case <-req.Cancel\<close> once
  the channel is closed and \<open>case <-done\<close> once \<open>done\<close> holds a value; when both
  are ready either may be taken, so the case taken is part of the step.
\<close>

datatype select_case = case_Cancel | case_done

definition watcher_step :: "select_case \<Rightarrow> state \<Rightarrow> state option" where
  "watcher_step c s =
     (case wpc s of
        W26 \<Rightarrow>
          (case c of
             case_Cancel \<Rightarrow> (if closed s then Some (s\<lparr>wpc := W28\<rparr>) else None)
           | case_done \<Rightarrow>
               (case recv (donech s) of
                  None \<Rightarrow> None
                | Some (u, buf) \<Rightarrow> Some (s\<lparr>wpc := W_stood, donech := buf\<rparr>)))
      | W28 \<Rightarrow>
          (case send (resultch s) canceled of
             None \<Rightarrow> None
           | Some buf \<Rightarrow> Some (s\<lparr>wpc := W_sent, resultch := buf\<rparr>))
      | _ \<Rightarrow> None)"

text \<open>
  The executor (lines 36 to 51). At line 46 the responder runs. If it returns, line 47
  sends its results. If it panics, the deferred function runs: \<open>recover()\<close> gives
  the panic value and stops the panic (line 38), and only a value other than nil is
  reported, at line 39. In the Go versions that build this file (the build tag is
  \<open>!go1.7\<close>) \<open>recover()\<close> after \<open>panic(nil)\<close> gives nil, so that panic
  is stopped without a report. After a normal return the deferred function finds nothing
  to recover and does nothing.
\<close>

definition executor_step :: "Responder \<Rightarrow> request \<Rightarrow> state \<Rightarrow> state option" where
  "executor_step responder req s =
     (case epc s of
        E46 \<Rightarrow>
          (case responder req of
             Returns response err \<Rightarrow> Some (s\<lparr>epc := E47 (response, err)\<rparr>)
           | Panics v \<Rightarrow> Some (s\<lparr>epc := E38 v\<rparr>)
           | Hangs \<Rightarrow> None)
      | E47 r \<Rightarrow>
          (case send (resultch s) r of
             None \<Rightarrow> None
           | Some buf \<Rightarrow> Some (s\<lparr>epc := E_sent, resultch := buf\<rparr>))
      | E38 v \<Rightarrow> Some (s\<lparr>epc := (if v \<noteq> FNil then E39 v else E_silent)\<rparr>)
      | E39 v \<Rightarrow>
          (case send (resultch s) (recovered v) of
             None \<Rightarrow> None
           | Some buf \<Rightarrow> Some (s\<lparr>epc := E_sent, resultch := buf\<rparr>))
      | _ \<Rightarrow> None)"

text \<open>
  The caller of \<open>runCancelable\<close> cancels by closing \<open>req.Cancel\<close>, at any moment
  and at most once, if the request has such a channel.
\<close>

definition caller_closes :: "request \<Rightarrow> state \<Rightarrow> state option" where
  "caller_closes req s =
     (if Cancel req \<noteq> None \<and> \<not> closed s then Some (s\<lparr>closed := True\<rparr>) else None)"

text \<open>
  One step of the whole system is one step of one task, chosen by the scheduler. A run
  follows a schedule from a state and is \<open>None\<close> if the schedule asks for a step that
  is blocked.
\<close>

datatype event = Invoker | Watcher select_case | Executor | Caller_closes

fun fire :: "Responder \<Rightarrow> request \<Rightarrow> event \<Rightarrow> state \<Rightarrow> state option" where
  "fire responder req Invoker s = invoker_step responder req s"
| "fire responder req (Watcher c) s = watcher_step c s"
| "fire responder req Executor s = executor_step responder req s"
| "fire responder req Caller_closes s = caller_closes req s"

fun run :: "Responder \<Rightarrow> request \<Rightarrow> event list \<Rightarrow> state \<Rightarrow> state option" where
  "run responder req [] s = Some s"
| "run responder req (e # es) s =
     (case fire responder req e s of
        None \<Rightarrow> None
      | Some s' \<Rightarrow> run responder req es s')"

text \<open>
  The state at the call: no goroutine started yet. \<open>c\<close> tells whether the caller
  closed \<open>req.Cancel\<close> before the call.
\<close>

definition init :: "request \<Rightarrow> bool \<Rightarrow> state" where
  "init req c =
     \<lparr>mpc = M15, wpc = W0, epc = E0, resultch = [], donech = [],
      closed = (Cancel req \<noteq> None \<and> c)\<rparr>"

subsection \<open>What a state tells about the past\<close>

text \<open>
  The result that the executor writes, if it writes one: the responder's own pair
  (line 47), or the recovered panic (line 39) when the panic value is not nil.
\<close>

definition exec_result :: "Responder \<Rightarrow> request \<Rightarrow> result option" where
  "exec_result responder req =
     (case responder req of
        Returns response err \<Rightarrow> Some (response, err)
      | Panics v \<Rightarrow> (if v \<noteq> FNil then Some (recovered v) else None)
      | Hangs \<Rightarrow> None)"

text \<open>
  Each task's program point tells what the task has done so far. In a call with a
  cancellation channel the invoker reaches \<open>M57\<close> and \<open>Returned\<close> only through
  the receive at line 53 and reaches \<open>Returned\<close> only through the send at line 57:
  so its program point gives the value it has received, how many receives that makes,
  and whether it has sent on \<open>done\<close>. Likewise for the watcher: whether it has
  written, has stood down, has seen the cancellation; and for the executor: whether it
  has written, and what.
\<close>

fun m_received :: "invoker_pc \<Rightarrow> result option" where
  "m_received (M57 r) = Some r"
| "m_received (Returned r) = Some r"
| "m_received _ = None"

fun m_taken :: "invoker_pc \<Rightarrow> nat" where
  "m_taken (M57 r) = 1"
| "m_taken (Returned r) = 1"
| "m_taken _ = 0"

fun m_signalled :: "invoker_pc \<Rightarrow> nat" where
  "m_signalled (Returned r) = 1"
| "m_signalled _ = 0"

fun m_early :: "invoker_pc \<Rightarrow> bool" where
  "m_early M15 = True"
| "m_early M22 = True"
| "m_early M23 = True"
| "m_early M25 = True"
| "m_early _ = False"

fun m_sync :: "invoker_pc \<Rightarrow> bool" where
  "m_sync M16 = True"
| "m_sync (Panicked v) = True"
| "m_sync _ = False"

fun w_wrote :: "watcher_pc \<Rightarrow> nat" where
  "w_wrote W_sent = 1"
| "w_wrote _ = 0"

fun w_stood :: "watcher_pc \<Rightarrow> nat" where
  "w_stood W_stood = 1"
| "w_stood _ = 0"

fun w_saw :: "watcher_pc \<Rightarrow> bool" where
  "w_saw W28 = True"
| "w_saw W_sent = True"
| "w_saw _ = False"

fun w_vals :: "watcher_pc \<Rightarrow> result set" where
  "w_vals W_sent = {canceled}"
| "w_vals _ = {}"

fun e_wrote :: "executor_pc \<Rightarrow> nat" where
  "e_wrote E_sent = 1"
| "e_wrote _ = 0"

fun e_vals :: "Responder \<Rightarrow> request \<Rightarrow> executor_pc \<Rightarrow> result set" where
  "e_vals responder req E_sent = set_option (exec_result responder req)"
| "e_vals responder req _ = {}"

fun e_ok :: "Responder \<Rightarrow> request \<Rightarrow> executor_pc \<Rightarrow> bool" where
  "e_ok responder req (E47 r) = (responder req = Returns (fst r) (snd r))"
| "e_ok responder req (E38 v) = (responder req = Panics v)"
| "e_ok responder req (E39 v) = (responder req = Panics v \<and> v \<noteq> FNil)"
| "e_ok responder req E_sent = (exec_result responder req \<noteq> None)"
| "e_ok responder req E_silent = (responder req = Panics FNil)"
| "e_ok responder req _ = True"

text \<open>
  The invariant of a call with a cancellation channel: the goroutines start only after
  the channels exist; every value written to the result channel is still in its buffer
  or is the one the invoker took; \<open>done\<close> holds the invoker's one signal until the
  watcher takes it; the values in flight are the watcher's or the executor's; the watcher
  writes only after the cancellation; the executor's program point agrees with what
  the responder did.
\<close>

definition inv :: "Responder \<Rightarrow> request \<Rightarrow> state \<Rightarrow> bool" where
  "inv responder req s \<longleftrightarrow>
     \<not> m_sync (mpc s) \<and>
     (m_early (mpc s) \<longrightarrow> wpc s = W0 \<and> epc s = E0 \<and> resultch s = [] \<and> donech s = []) \<and>
     (mpc s = M36 \<longrightarrow> epc s = E0) \<and>
     (wpc s = W0 \<longrightarrow> m_early (mpc s)) \<and>
     (epc s = E0 \<longrightarrow> m_early (mpc s) \<or> mpc s = M36) \<and>
     length (resultch s) \<le> 1 \<and>
     length (resultch s) + m_taken (mpc s) = w_wrote (wpc s) + e_wrote (epc s) \<and>
     length (donech s) + w_stood (wpc s) = m_signalled (mpc s) \<and>
     set (resultch s) \<union> set_option (m_received (mpc s))
       \<subseteq> w_vals (wpc s) \<union> e_vals responder req (epc s) \<and>
     (w_saw (wpc s) \<longrightarrow> closed s) \<and>
     e_ok responder req (epc s)"

text \<open>
  The watcher's result is the one the invoker gets: it fills the buffer of the result
  channel while the invoker is on its way to line 53, or the invoker has received it.
\<close>

fun m_canceled :: "invoker_pc \<Rightarrow> result list \<Rightarrow> bool" where
  "m_canceled M36 buf = (buf = [canceled])"
| "m_canceled M53 buf = (buf = [canceled])"
| "m_canceled (M57 r) buf = (r = canceled)"
| "m_canceled (Returned r) buf = (r = canceled)"
| "m_canceled _ buf = False"

text \<open>
  The invariant of a call without a cancellation channel: only the invoker has moved,
  and where it stands agrees with what the responder did.
\<close>

fun m_direct :: "Responder \<Rightarrow> request \<Rightarrow> invoker_pc \<Rightarrow> bool" where
  "m_direct responder req M15 = True"
| "m_direct responder req M16 = True"
| "m_direct responder req (Returned r) = (responder req = Returns (fst r) (snd r))"
| "m_direct responder req (Panicked v) = (responder req = Panics v)"
| "m_direct responder req _ = False"

definition inv_direct :: "Responder \<Rightarrow> request \<Rightarrow> state \<Rightarrow> bool" where
  "inv_direct responder req s \<longleftrightarrow>
     m_direct responder req (mpc s) \<and> wpc s = W0 \<and> epc s = E0 \<and>
     resultch s = [] \<and> donech s = [] \<and> \<not> closed s"





subsection \<open>Responders and encoders used as examples\<close>

text \<open>
  A responder that panics with a given value, as \<open>func(*http.Request) { panic(v) }\<close>;
  a request with a cancellation channel and one without; and an encoder on a small
  type of values, which like \<open>json.Marshal\<close> writes a boolean as \<open>true\<close> or
  \<open>false\<close> and rejects a channel.
\<close>

definition panicking :: "fault \<Rightarrow> Responder" where
  "panicking v = (\<lambda>req. Panics v)"

definition cancelable_request :: request where
  "cancelable_request = \<lparr>Cancel = Some 0\<rparr>"

definition plain_request :: request where
  "plain_request = \<lparr>Cancel = None\<rparr>"

datatype go_value = Bool bool | Chan

fun marshal_example :: "go_value \<Rightarrow> string \<times> error option" where
  "marshal_example (Bool True) = (''true'', None)"
| "marshal_example (Bool False) = (''false'', None)"
| "marshal_example Chan = ([], Some (errorString ''json: unsupported type: chan int''))"

section \<open>Properties of the bodies and the builders\<close>

lemma take_drop_step:
  "take n (drop i s) @ drop (i + length (take n (drop i s))) s = drop i s"
proof -
  define ys where "ys = drop i s"
  have A: "drop (i + m) s = drop m ys" for m
    by (simp add: ys_def add.commute)
  have "drop (length (take n ys)) ys = drop n ys"
    by (cases "n \<le> length ys") (simp_all add: min_def)
  then have "take n ys @ drop (length (take n ys)) ys = ys"
    by (simp only: append_take_drop_id)
  then show ?thesis
    by (simp only: A ys_def [symmetric])
qed

lemma drain_Reader:
  "\<exists>t. drain k (dummyReadCloser (Reader kd s i)) = Inr t \<and> bytes t = drop i s \<and>
       stopped t = None \<and> elapsed t = 0 \<and> rest t = dummyReadCloser (Reader kd s 0)"
proof (induction "length s - i" arbitrary: i rule: less_induct)
  case less
  show ?case
  proof (cases "length s \<le> i")
    case True
    then show ?thesis
      by (subst drain.simps) (simp add: drc_Read_def std_Read_def std_Seek_def)
  next
    case False
    define bs where "bs = take (Suc k) (drop i s)"
    have pos: "0 < length bs" using False by (simp add: bs_def)
    have "length s - (i + length bs) < length s - i" using False pos by arith
    from less[OF this] obtain t where
      t: "drain k (dummyReadCloser (Reader kd s (i + length bs))) = Inr t"
         "bytes t = drop (i + length bs) s" "stopped t = None" "elapsed t = 0"
         "rest t = dummyReadCloser (Reader kd s 0)"
      by blast
    have "bs @ drop (i + length bs) s = drop i s"
      unfolding bs_def by (rule take_drop_step)
    with t False show ?thesis
      by (subst drain.simps) (simp add: drc_Read_def std_Read_def bs_def Let_def)
  qed
qed

lemma drain_SlowReader:
  "\<exists>t. drain k (dummyReadCloser (SlowReader delay (Reader kd s i))) = Inr t \<and>
       bytes t = drop i s \<and> stopped t = None \<and> reads t = length s - i + 1 \<and>
       elapsed t = int (reads t) * Sleep delay \<and>
       rest t = dummyReadCloser (SlowReader delay (Reader kd s 0))"
proof (induction "length s - i" arbitrary: i rule: less_induct)
  case less
  show ?case
  proof (cases "length s \<le> i")
    case True
    then show ?thesis
      by (subst drain.simps) (simp add: drc_Read_def std_Read_def std_Seek_def)
  next
    case False
    have "length s - Suc i < length s - i" using False by simp
    from less[OF this] obtain t where
      t: "drain k (dummyReadCloser (SlowReader delay (Reader kd s (Suc i)))) = Inr t"
         "bytes t = drop (Suc i) s" "stopped t = None" "reads t = length s - Suc i + 1"
         "elapsed t = int (reads t) * Sleep delay"
         "rest t = dummyReadCloser (SlowReader delay (Reader kd s 0))"
      by blast
    have tk: "take (Suc 0) (drop i s) = [s ! i]" using False
      by (simp add: take_Suc_conv_app_nth hd_drop_conv_nth take_Suc)
    have "s ! i # drop (Suc i) s = drop i s" using False
      by (simp add: Cons_nth_drop_Suc)
    with t False tk show ?thesis
      by (subst drain.simps) (simp add: drc_Read_def std_Read_def Let_def algebra_simps)
  qed
qed

lemma rs_Read_total:
  "0 < n \<Longrightarrow> \<exists>res. rs_Read r n = Inr res \<and> length (rd_data res) \<le> n \<and> 0 \<le> rd_slept res"
proof (induction r arbitrary: n)
  case (Reader kd s i)
  then show ?case by (auto simp: std_Read_def Let_def)
next
  case (SlowReader delay r)
  from SlowReader.IH[of 1] obtain res where
    "rs_Read r 1 = Inr res" "length (rd_data res) \<le> 1" "0 \<le> rd_slept res"
    by auto
  with SlowReader.prems show ?case by (auto simp: Sleep_def)
qed

lemma canonical_Content_Type: "CanonicalMIMEHeaderKey ''Content-Type'' = ''Content-Type''"
  by code_simp

text \<open>
  Claim C8. For every string \<open>s\<close> and whatever the buffer lengths, reading the body
  made by \<open>NewRespBodyFromString s\<close> to its end yields the bytes \<open>s\<close> and leaves
  the body as it was made; reading it to its end again yields \<open>s\<close> again. The
  \<open>Read\<close> that meets the end of the stream reports \<open>io.EOF\<close> and rewinds the
  body to its start.
\<close>

theorem string_body_rewinds:
  "\<exists>t1 t2. drain k (NewRespBodyFromString s) = Inr t1 \<and> bytes t1 = s \<and> stopped t1 = None \<and>
     rest t1 = NewRespBodyFromString s \<and>
     drain k' (rest t1) = Inr t2 \<and> bytes t2 = s \<and> stopped t2 = None \<and>
     drc_Read (dummyReadCloser (Reader of_strings s (length s))) (Suc k)
       = Inr \<lparr>rd_data = [], rd_err = Some io_EOF, rd_slept = 0,
              rd_after = NewRespBodyFromString s\<rparr>"
proof -
  from drain_Reader[of k of_strings s 0] obtain t1 where
    t1: "drain k (NewRespBodyFromString s) = Inr t1" "bytes t1 = s" "stopped t1 = None"
        "rest t1 = NewRespBodyFromString s"
    by (auto simp: NewRespBodyFromString_def)
  from drain_Reader[of k' of_strings s 0] obtain t2 where
    t2: "drain k' (NewRespBodyFromString s) = Inr t2" "bytes t2 = s" "stopped t2 = None"
    by (auto simp: NewRespBodyFromString_def)
  have e: "drc_Read (dummyReadCloser (Reader of_strings s (length s))) (Suc k)
       = Inr \<lparr>rd_data = [], rd_err = Some io_EOF, rd_slept = 0,
              rd_after = NewRespBodyFromString s\<rparr>"
    by (simp add: drc_Read_def std_Read_def std_Seek_def NewRespBodyFromString_def)
  from t1 t2 e show ?thesis by auto
qed

text \<open>
  Claim C9. A \<open>SlowReader\<close> made for a rate of \<open>bps > 0\<close> bytes per second has
  the delay \<open>time.Second / bps\<close>, which is one \<open>bps\<close>-th of a second in whole
  nanoseconds. Every \<open>Read\<close> with a non-empty buffer succeeds, sleeps at least that
  delay and transfers at most one byte. Reading a body of \<open>length s\<close> bytes to its end
  through such a reader yields \<open>s\<close> and takes \<open>length s + 1\<close> reads (one per
  byte and the one that meets the end), hence at least \<open>length s\<close> reads, each after
  one delay.
\<close>

theorem SlowReader_one_byte_per_interval:
  assumes "0 < bps"
  shows "\<exists>delay. NewSlowReader r bps = Inr (SlowReader delay r) \<and>
           delay * bps \<le> Second \<and> Second < (delay + 1) * bps \<and>
           (\<forall>len_p. 0 < len_p \<longrightarrow>
              (\<exists>res. rs_Read (SlowReader delay r) len_p = Inr res \<and>
                     length (rd_data res) \<le> 1 \<and> delay \<le> rd_slept res)) \<and>
           (\<forall>k s. \<exists>t. drain k (dummyReadCloser (SlowReader delay (strings_NewReader s))) = Inr t \<and>
                     bytes t = s \<and> stopped t = None \<and> length s \<le> reads t \<and>
                     reads t = length s + 1 \<and> elapsed t = int (reads t) * delay)"
proof -
  define delay where "delay = Second div bps"
  have new: "NewSlowReader r bps = Inr (SlowReader delay r)"
    using assms by (simp add: NewSlowReader_def go_quot_def delay_def Second_def)
  have nonneg: "0 \<le> delay"
    using assms by (simp add: delay_def Second_def pos_imp_zdiv_nonneg_iff)
  have split: "Second = delay * bps + Second mod bps"
    by (simp add: delay_def)
  have lo: "delay * bps \<le> Second"
  proof -
    have "0 \<le> Second mod bps" using assms by simp
    with split show ?thesis by linarith
  qed
  have hi: "Second < (delay + 1) * bps"
  proof -
    have "Second mod bps < bps" using assms by simp
    with split show ?thesis by (simp add: algebra_simps)
  qed
  have rd: "\<exists>res. rs_Read (SlowReader delay r) len_p = Inr res \<and>
                     length (rd_data res) \<le> 1 \<and> delay \<le> rd_slept res" if "0 < len_p" for len_p
  proof -
    from rs_Read_total[of 1 r] obtain res where
      "rs_Read r 1 = Inr res" "length (rd_data res) \<le> 1" "0 \<le> rd_slept res"
      by auto
    with that nonneg show ?thesis by (auto simp: Sleep_def)
  qed
  have dr: "\<exists>t. drain k (dummyReadCloser (SlowReader delay (strings_NewReader s))) = Inr t \<and>
                     bytes t = s \<and> stopped t = None \<and> length s \<le> reads t \<and>
                     reads t = length s + 1 \<and> elapsed t = int (reads t) * delay" for k s
    using drain_SlowReader[of k delay of_strings s 0] nonneg by (auto simp: Sleep_def)
  from new lo hi rd dr show ?thesis by blast
qed

text \<open>
  Claim C9 at the rate 4096 and the body \<open>ok\<close>: the delay is 244140 nanoseconds, and
  a \<open>Read\<close> with a buffer of 512 bytes transfers the one byte \<open>o\<close>.
\<close>

theorem SlowReader_one_byte_per_interval_witness:
  "(0::int) < 4096 \<and>
   NewSlowReader (strings_NewReader ''ok'') 4096
     = Inr (SlowReader 244140 (strings_NewReader ''ok'')) \<and>
   rs_Read (SlowReader 244140 (strings_NewReader ''ok'')) 512
     = Inr \<lparr>rd_data = ''o'', rd_err = None, rd_slept = 244140,
            rd_after = SlowReader 244140 (Reader of_strings ''ok'' 1)\<rparr>"
proof -
  have h: "(0::int) < 4096" by simp
  have n: "NewSlowReader (strings_NewReader ''ok'') 4096
     = Inr (SlowReader 244140 (strings_NewReader ''ok''))"
    by (simp add: NewSlowReader_def go_quot_def Second_def)
  have r: "rs_Read (SlowReader 244140 (strings_NewReader ''ok'')) 512
     = Inr \<lparr>rd_data = ''o'', rd_err = None, rd_slept = 244140,
            rd_after = SlowReader 244140 (Reader of_strings ''ok'' 1)\<rparr>"
    by (simp add: std_Read_def Sleep_def)
  from SlowReader_one_byte_per_interval[OF h, of "strings_NewReader ''ok''"] h n r
  show ?thesis by (intro conjI)
qed

text \<open>
  Claim C10. \<open>NewSlowStringResponder\<close> does not use its delay parameter: two calls
  that differ only in the delay return the same responder. That responder returns a
  response whose body is throttled by the reader that \<open>NewSlowReader\<close> makes for the
  fixed rate of 4096 bytes per second, with a delay of 244140 nanoseconds.
\<close>

theorem NewSlowStringResponder_ignores_delay:
  "NewSlowStringResponder delay status body = NewSlowStringResponder delay' status body \<and>
   NewSlowStringResponder delay status body
     = Inr (ResponderFromResponse
         (Some \<lparr>Status = Itoa status, StatusCode = status,
                Body = dummyReadCloser (SlowReader 244140 (strings_NewReader body)),
                Header = Map.empty\<rparr>)) \<and>
   NewSlowReader (strings_NewReader body) 4096
     = Inr (SlowReader 244140 (strings_NewReader body)) \<and>
   244140 * 4096 \<le> Second \<and> Second < (244140 + 1) * 4096"
  by (simp add: NewSlowStringResponder_def NewSlowStringResponse_def
        NewSlowRespBodyFromString_def NewSlowReader_def go_quot_def Second_def)

text \<open>
  Claim C7. \<open>NewJsonResponse\<close> returns a non-nil error exactly when the encoder
  returns one, and then returns a nil response with the encoder's error. When the encoder
  succeeds it returns a nil error and a response with the given status code, with a body
  made from the encoded bytes (reading it to its end yields them) and with the header
  \<open>Content-Type\<close> set to \<open>application/json\<close>. The same holds of
  \<open>NewXmlResponse\<close> with \<open>application/xml\<close>.
\<close>

theorem NewJsonResponse_NewXmlResponse:
  "(snd (NewJsonResponse json_Marshal status body) \<noteq> None
      \<longleftrightarrow> snd (json_Marshal body) \<noteq> None) \<and>
   (snd (json_Marshal body) \<noteq> None \<longrightarrow>
      NewJsonResponse json_Marshal status body = (None, snd (json_Marshal body))) \<and>
   (snd (json_Marshal body) = None \<longrightarrow>
      (\<exists>r. NewJsonResponse json_Marshal status body = (Some r, None) \<and>
           StatusCode r = status \<and>
           Body r = NewRespBodyFromBytes (fst (json_Marshal body)) \<and>
           (\<forall>k. \<exists>t. drain k (Body r) = Inr t \<and> bytes t = fst (json_Marshal body)) \<and>
           Header r ''Content-Type'' = Some [''application/json''])) \<and>
   (snd (NewXmlResponse xml_Marshal status body) \<noteq> None
      \<longleftrightarrow> snd (xml_Marshal body) \<noteq> None) \<and>
   (snd (xml_Marshal body) \<noteq> None \<longrightarrow>
      NewXmlResponse xml_Marshal status body = (None, snd (xml_Marshal body))) \<and>
   (snd (xml_Marshal body) = None \<longrightarrow>
      (\<exists>r. NewXmlResponse xml_Marshal status body = (Some r, None) \<and>
           StatusCode r = status \<and>
           Body r = NewRespBodyFromBytes (fst (xml_Marshal body)) \<and>
           (\<forall>k. \<exists>t. drain k (Body r) = Inr t \<and> bytes t = fst (xml_Marshal body)) \<and>
           Header r ''Content-Type'' = Some [''application/xml'']))"
proof -
  have dr: "\<exists>t. drain k (NewRespBodyFromBytes bs) = Inr t \<and> bytes t = bs" for k bs
    using drain_Reader[of k of_bytes bs 0] by (auto simp: NewRespBodyFromBytes_def)
  have j: "(snd (NewJsonResponse json_Marshal status body) \<noteq> None
      \<longleftrightarrow> snd (json_Marshal body) \<noteq> None) \<and>
   (snd (json_Marshal body) \<noteq> None \<longrightarrow>
      NewJsonResponse json_Marshal status body = (None, snd (json_Marshal body))) \<and>
   (snd (json_Marshal body) = None \<longrightarrow>
      (\<exists>r. NewJsonResponse json_Marshal status body = (Some r, None) \<and>
           StatusCode r = status \<and>
           Body r = NewRespBodyFromBytes (fst (json_Marshal body)) \<and>
           (\<forall>k. \<exists>t. drain k (Body r) = Inr t \<and> bytes t = fst (json_Marshal body)) \<and>
           Header r ''Content-Type'' = Some [''application/json'']))"
    by (cases "json_Marshal body")
       (auto simp: NewJsonResponse_def NewBytesResponse_def Header_Set_def
          canonical_Content_Type dr)
  have x: "(snd (NewXmlResponse xml_Marshal status body) \<noteq> None
      \<longleftrightarrow> snd (xml_Marshal body) \<noteq> None) \<and>
   (snd (xml_Marshal body) \<noteq> None \<longrightarrow>
      NewXmlResponse xml_Marshal status body = (None, snd (xml_Marshal body))) \<and>
   (snd (xml_Marshal body) = None \<longrightarrow>
      (\<exists>r. NewXmlResponse xml_Marshal status body = (Some r, None) \<and>
           StatusCode r = status \<and>
           Body r = NewRespBodyFromBytes (fst (xml_Marshal body)) \<and>
           (\<forall>k. \<exists>t. drain k (Body r) = Inr t \<and> bytes t = fst (xml_Marshal body)) \<and>
           Header r ''Content-Type'' = Some [''application/xml'']))"
    by (cases "xml_Marshal body")
       (auto simp: NewXmlResponse_def NewBytesResponse_def Header_Set_def
          canonical_Content_Type dr)
  from j x show ?thesis by (elim conjE, intro conjI) assumption+
qed

text \<open>
  Claim C7 at an encoder that rejects a channel and writes \<open>true\<close> as \<open>true\<close>.
\<close>

theorem NewJsonResponse_NewXmlResponse_witness:
  "snd (marshal_example (Bool True)) = None \<and>
   snd (marshal_example Chan) \<noteq> None \<and>
   NewJsonResponse marshal_example 200 Chan
     = (None, Some (errorString ''json: unsupported type: chan int'')) \<and>
   NewXmlResponse marshal_example 200 Chan
     = (None, Some (errorString ''json: unsupported type: chan int'')) \<and>
   NewJsonResponse marshal_example 200 (Bool True)
     = (Some \<lparr>Status = ''200'', StatusCode = 200, Body = NewRespBodyFromBytes ''true'',
              Header = [''Content-Type'' \<mapsto> [''application/json'']]\<rparr>, None)"
proof -
  have h1: "snd (marshal_example (Bool True)) = None" by simp
  have h2: "snd (marshal_example Chan) \<noteq> None" by simp
  note t = NewJsonResponse_NewXmlResponse[of marshal_example 200 Chan marshal_example]
  have a: "NewJsonResponse marshal_example 200 Chan
     = (None, Some (errorString ''json: unsupported type: chan int''))"
    using t[THEN conjunct2, THEN conjunct1, THEN mp, OF h2] by simp
  have b: "NewXmlResponse marshal_example 200 Chan
     = (None, Some (errorString ''json: unsupported type: chan int''))"
    using t[THEN conjunct2, THEN conjunct2, THEN conjunct2, THEN conjunct2, THEN conjunct1,
            THEN mp, OF h2] by simp
  have i: "Itoa 200 = ''200''" by code_simp
  have c: "NewJsonResponse marshal_example 200 (Bool True)
     = (Some \<lparr>Status = ''200'', StatusCode = 200, Body = NewRespBodyFromBytes ''true'',
              Header = [''Content-Type'' \<mapsto> [''application/json'']]\<rparr>, None)"
    by (simp add: NewJsonResponse_def NewBytesResponse_def Header_Set_def
          canonical_Content_Type i)
  from h1 h2 a b c show ?thesis by (intro conjI)
qed

section \<open>Invariants of runCancelable\<close>

lemma inv_init: "Cancel req \<noteq> None \<Longrightarrow> inv responder req (init req c)"
  by (simp add: inv_def init_def)

lemma inv_invoker:
  assumes "Cancel req \<noteq> None" "inv responder req s" "invoker_step responder req s = Some s'"
  shows "inv responder req s'"
  using assms
  by (cases "mpc s")
     (auto simp: inv_def invoker_step_def send_def recv_def split: list.splits if_splits)

lemma inv_watcher:
  assumes "inv responder req s" "watcher_step c s = Some s'"
  shows "inv responder req s'"
  using assms
  by (cases "wpc s"; cases c)
     (auto simp: inv_def watcher_step_def send_def recv_def split: list.splits if_splits)

lemma inv_executor:
  assumes "inv responder req s" "executor_step responder req s = Some s'"
  shows "inv responder req s'"
  using assms
  by (cases "epc s")
     (auto simp: inv_def executor_step_def send_def recv_def exec_result_def
           split: list.splits if_splits call.splits)

lemma inv_closes:
  assumes "inv responder req s" "caller_closes req s = Some s'"
  shows "inv responder req s'"
  using assms
  by (auto simp: inv_def caller_closes_def split: if_splits)

lemma inv_fire:
  assumes "Cancel req \<noteq> None" "inv responder req s" "fire responder req e s = Some s'"
  shows "inv responder req s'"
  using assms
  by (cases e) (auto intro: inv_invoker inv_watcher inv_executor inv_closes)

lemma inv_run:
  assumes "Cancel req \<noteq> None"
  shows "inv responder req s \<Longrightarrow> run responder req tr s = Some s' \<Longrightarrow> inv responder req s'"
proof (induction tr arbitrary: s)
  case Nil
  then show ?case by simp
next
  case (Cons e es)
  from Cons.prems obtain s1 where
    s1: "fire responder req e s = Some s1" "run responder req es s1 = Some s'"
    by (auto split: option.splits)
  from inv_fire[OF assms Cons.prems(1) s1(1)] Cons.IH[OF _ s1(2)] show ?case by simp
qed

lemma inv_reachable:
  "Cancel req \<noteq> None \<Longrightarrow> run responder req tr (init req c) = Some s \<Longrightarrow> inv responder req s"
  using inv_run inv_init by blast

text \<open>Without a cancellation channel.\<close>

lemma inv_direct_init: "Cancel req = None \<Longrightarrow> inv_direct responder req (init req c)"
  by (simp add: inv_direct_def init_def)

lemma inv_direct_fire:
  assumes "Cancel req = None" "inv_direct responder req s" "fire responder req e s = Some s'"
  shows "inv_direct responder req s' \<and> e = Invoker"
proof (cases e)
  case Invoker
  with assms show ?thesis
    by (cases "mpc s")
       (auto simp: inv_direct_def invoker_step_def split: call.splits)
next
  case (Watcher c)
  with assms show ?thesis
    by (auto simp: inv_direct_def watcher_step_def)
next
  case Executor
  with assms show ?thesis
    by (auto simp: inv_direct_def executor_step_def)
next
  case Caller_closes
  with assms show ?thesis
    by (auto simp: caller_closes_def)
qed

lemma inv_direct_run:
  assumes "Cancel req = None"
  shows "inv_direct responder req s \<Longrightarrow> run responder req tr s = Some s' \<Longrightarrow>
           inv_direct responder req s' \<and> set tr \<subseteq> {Invoker}"
proof (induction tr arbitrary: s)
  case Nil
  then show ?case by simp
next
  case (Cons e es)
  from Cons.prems obtain s1 where
    s1: "fire responder req e s = Some s1" "run responder req es s1 = Some s'"
    by (auto split: option.splits)
  from inv_direct_fire[OF assms Cons.prems(1) s1(1)]
  have "inv_direct responder req s1" "e = Invoker" by auto
  with Cons.IH[OF _ s1(2)] show ?case by simp
qed






lemma canceled_first_start:
  assumes "inv responder req s" "wpc s = W_sent" "epc s \<noteq> E_sent"
  shows "m_canceled (mpc s) (resultch s)"
  using assms
  by (cases "mpc s"; cases "epc s"; cases "resultch s")
     (auto simp: inv_def)

lemma canceled_first_fire:
  assumes "m_canceled (mpc s) (resultch s)" "fire responder req e s = Some s'"
  shows "m_canceled (mpc s') (resultch s')"
proof (cases e)
  case Invoker
  with assms show ?thesis
    by (cases "mpc s")
       (auto simp: invoker_step_def send_def recv_def split: option.splits if_splits)
next
  case (Watcher c)
  with assms show ?thesis
    by (cases "wpc s"; cases c; cases "mpc s")
       (auto simp: watcher_step_def send_def recv_def split: option.splits if_splits list.splits)
next
  case Executor
  with assms show ?thesis
    by (cases "epc s"; cases "mpc s")
       (auto simp: executor_step_def send_def split: call.splits option.splits if_splits)
next
  case Caller_closes
  with assms show ?thesis
    by (cases "mpc s") (auto simp: caller_closes_def split: if_splits)
qed

lemma canceled_first_run:
  "m_canceled (mpc s) (resultch s) \<Longrightarrow> run responder req tr s = Some s' \<Longrightarrow>
     m_canceled (mpc s') (resultch s')"
proof (induction tr arbitrary: s)
  case Nil
  then show ?case by simp
next
  case (Cons e es)
  from Cons.prems obtain s1 where
    s1: "fire responder req e s = Some s1" "run responder req es s1 = Some s'"
    by (auto split: option.splits)
  from canceled_first_fire[OF Cons.prems(1) s1(1)] Cons.IH[OF _ s1(2)] show ?case by simp
qed

lemma w_wrote_le: "w_wrote p \<le> 1"
  by (cases p) auto

lemma e_wrote_le: "e_wrote p \<le> 1"
  by (cases p) auto


section \<open>Properties of runCancelable\<close>

text \<open>
  Claim C3. For a request without a cancellation channel: if the responder returns
  \<open>(response, err)\<close>, two steps of the invoker return exactly that pair; and in every
  run only the invoker ever moves, no goroutine is started, no channel is used, and a
  returned pair is the responder's own.
\<close>

theorem runCancelable_without_Cancel:
  assumes "Cancel req = None"
  shows "(\<forall>response err. responder req = Returns response err \<longrightarrow>
            run responder req [Invoker, Invoker] (init req c)
              = Some ((init req c)\<lparr>mpc := Returned (response, err)\<rparr>)) \<and>
         (\<forall>tr s. run responder req tr (init req c) = Some s \<longrightarrow>
            set tr \<subseteq> {Invoker} \<and> wpc s = W0 \<and> epc s = E0 \<and>
            resultch s = [] \<and> donech s = [] \<and>
            (\<forall>r. mpc s = Returned r \<longrightarrow> responder req = Returns (fst r) (snd r)))"
proof (intro conjI allI impI)
  fix response err
  assume "responder req = Returns response err"
  with assms show "run responder req [Invoker, Invoker] (init req c)
              = Some ((init req c)\<lparr>mpc := Returned (response, err)\<rparr>)"
    by (simp add: init_def invoker_step_def)
next
  fix tr s
  assume "run responder req tr (init req c) = Some s"
  with inv_direct_run[OF assms inv_direct_init[OF assms]]
  have d: "inv_direct responder req s" and t: "set tr \<subseteq> {Invoker}" by blast+
  show "set tr \<subseteq> {Invoker}" by (rule t)
  show "wpc s = W0" "epc s = E0" "resultch s = []" "donech s = []"
    using d by (simp_all add: inv_direct_def)
  fix r
  assume "mpc s = Returned r"
  with d show "responder req = Returns (fst r) (snd r)"
    by (simp add: inv_direct_def)
qed

text \<open>
  Claim C3 at the responder \<open>NewStringResponder 200 pong\<close>: the call returns the
  responder's response and a nil error.
\<close>

theorem runCancelable_without_Cancel_witness:
  "Cancel plain_request = None \<and>
   run (NewStringResponder 200 ''pong'') plain_request [Invoker, Invoker]
     (init plain_request False)
     = Some \<lparr>mpc = Returned (Some (NewStringResponse 200 ''pong''), None), wpc = W0,
             epc = E0, resultch = [], donech = [], closed = False\<rparr>"
proof -
  have h: "Cancel plain_request = None"
    by (simp add: plain_request_def)
  have r: "NewStringResponder 200 ''pong'' plain_request
             = Returns (Some (NewStringResponse 200 ''pong'')) None"
    by (simp add: NewStringResponder_def ResponderFromResponse_def)
  from runCancelable_without_Cancel[OF h, of "NewStringResponder 200 ''pong''" False] r h
  show ?thesis by (simp add: init_def plain_request_def)
qed



text \<open>
  Claim C6. In every state that a call with a cancellation channel can reach: \<open>done\<close>
  receives at most one send, the invoker's, and when the invoker stands at line 57 the
  buffer of \<open>done\<close> is empty, so the send proceeds; the result channel never holds
  more than one value, at most two values are ever written to it, and the invoker takes
  one; once the invoker has received, a watcher or an executor that stands at its send
  can proceed; and while a sender is blocked on the full buffer, the invoker is able to
  step.
\<close>

theorem stand_down_and_losing_write_never_block:
  assumes "Cancel req \<noteq> None"
    and "run responder req tr (init req c) = Some s"
  shows "length (donech s) + w_stood (wpc s) = m_signalled (mpc s) \<and>
         (\<forall>r. mpc s = M57 r \<longrightarrow> donech s = [] \<and> fire responder req Invoker s \<noteq> None) \<and>
         length (resultch s) \<le> 1 \<and>
         length (resultch s) + m_taken (mpc s) = w_wrote (wpc s) + e_wrote (epc s) \<and>
         (m_taken (mpc s) = 1 \<and> wpc s = W28 \<longrightarrow>
            fire responder req (Watcher sc) s \<noteq> None) \<and>
         (m_taken (mpc s) = 1 \<and> ((\<exists>x. epc s = E47 x) \<or> (\<exists>v. epc s = E39 v)) \<longrightarrow>
            fire responder req Executor s \<noteq> None) \<and>
         (wpc s = W28 \<and> fire responder req (Watcher sc) s = None \<or>
          ((\<exists>x. epc s = E47 x) \<or> (\<exists>v. epc s = E39 v)) \<and> fire responder req Executor s = None \<longrightarrow>
            fire responder req Invoker s \<noteq> None)"
proof -
  have i: "inv responder req s"
    using assms by (rule inv_reachable)
  have d1: "length (donech s) + w_stood (wpc s) = m_signalled (mpc s)"
    using i by (simp add: inv_def)
  have d2: "donech s = [] \<and> fire responder req Invoker s \<noteq> None" if "mpc s = M57 r" for r
    using i that by (simp add: inv_def invoker_step_def send_def)
  have cap: "length (resultch s) \<le> 1"
    using i by (simp add: inv_def)
  have count: "length (resultch s) + m_taken (mpc s) = w_wrote (wpc s) + e_wrote (epc s)"
    using i by (simp add: inv_def)
  have w: "fire responder req (Watcher sc) s \<noteq> None" if "m_taken (mpc s) = 1 \<and> wpc s = W28"
    using count that by (cases "epc s") (auto simp: watcher_step_def send_def)
  have e: "fire responder req Executor s \<noteq> None"
    if "m_taken (mpc s) = 1 \<and> ((\<exists>x. epc s = E47 x) \<or> (\<exists>v. epc s = E39 v))"
    using count that by (cases "wpc s") (auto simp: executor_step_def send_def)
  have b: "fire responder req Invoker s \<noteq> None"
    if "wpc s = W28 \<and> fire responder req (Watcher sc) s = None \<or>
          ((\<exists>x. epc s = E47 x) \<or> (\<exists>v. epc s = E39 v)) \<and> fire responder req Executor s = None"
    using i that w_wrote_le[of "wpc s"] e_wrote_le[of "epc s"]
    by (cases "mpc s"; cases "resultch s")
       (auto simp: inv_def invoker_step_def watcher_step_def executor_step_def send_def recv_def
             split: if_splits)
  from d1 d2 cap count w e b show ?thesis by blast
qed

text \<open>
  Claim C6 at a run in which the executor wins and the watcher, having seen the
  cancellation, stands at its send: both the invoker's send on \<open>done\<close> and the
  watcher's late send proceed.
\<close>

theorem stand_down_and_losing_write_never_block_witness:
  "Cancel cancelable_request \<noteq> None \<and>
   run (NewStringResponder 200 ''pong'') cancelable_request
     [Invoker, Invoker, Invoker, Invoker, Invoker, Caller_closes, Watcher case_Cancel,
      Executor, Executor, Invoker]
     (init cancelable_request False)
     = Some \<lparr>mpc = M57 (Some (NewStringResponse 200 ''pong''), None), wpc = W28,
             epc = E_sent, resultch = [], donech = [], closed = True\<rparr> \<and>
   fire (NewStringResponder 200 ''pong'') cancelable_request Invoker
     \<lparr>mpc = M57 (Some (NewStringResponse 200 ''pong''), None), wpc = W28,
       epc = E_sent, resultch = [], donech = [], closed = True\<rparr> \<noteq> None \<and>
   fire (NewStringResponder 200 ''pong'') cancelable_request (Watcher case_Cancel)
     \<lparr>mpc = M57 (Some (NewStringResponse 200 ''pong''), None), wpc = W28,
       epc = E_sent, resultch = [], donech = [], closed = True\<rparr> \<noteq> None"
proof -
  let ?R = "NewStringResponder 200 ''pong''"
  let ?s = "\<lparr>mpc = M57 (Some (NewStringResponse 200 ''pong''), None), wpc = W28,
             epc = E_sent, resultch = [], donech = [], closed = True\<rparr>"
  have h1: "Cancel cancelable_request \<noteq> None"
    by (simp add: cancelable_request_def)
  have h2: "run ?R cancelable_request
     [Invoker, Invoker, Invoker, Invoker, Invoker, Caller_closes, Watcher case_Cancel,
      Executor, Executor, Invoker]
     (init cancelable_request False) = Some ?s"
    by (simp add: cancelable_request_def init_def invoker_step_def executor_step_def
          watcher_step_def caller_closes_def
          send_def recv_def NewStringResponder_def ResponderFromResponse_def)
  from stand_down_and_losing_write_never_block[OF h1 h2, of case_Cancel] h1 h2
  show ?thesis by simp
qed

text \<open>
  Claim C1, amended. For a request with a cancellation channel: once the watcher has
  written its result and the executor has not written, the cancellation has fired and
  the value in the result channel (or already received by the invoker) is
  \<open>(nil, error "request canceled")\<close>. From then on the invoker returns exactly that
  pair: some continuation ends with the invoker having returned it; in every
  continuation the invoker, until it has returned that pair, is able to take its next
  step, whatever the other tasks do; and whenever it has returned, it has returned that
  pair.
\<close>

theorem watcher_first_returns_canceled:
  assumes "Cancel req \<noteq> None"
    and "run responder req tr1 (init req c) = Some s1"
    and "wpc s1 = W_sent" and "epc s1 \<noteq> E_sent"
  shows "closed s1 \<and>
         (resultch s1 = [canceled] \<or> m_received (mpc s1) = Some canceled) \<and>
         (\<exists>tr2 s2. run responder req tr2 s1 = Some s2 \<and>
            mpc s2 = Returned (None, Some (errorString ''request canceled''))) \<and>
         (\<forall>tr2 s2. run responder req tr2 s1 = Some s2 \<longrightarrow>
            (\<forall>r. mpc s2 = Returned r \<longrightarrow>
               r = (None, Some (errorString ''request canceled''))) \<and>
            (mpc s2 = Returned (None, Some (errorString ''request canceled'')) \<or>
             fire responder req Invoker s2 \<noteq> None))"
proof -
  have i1: "inv responder req s1"
    using assms(1,2) by (rule inv_reachable)
  have cl: "closed s1"
    using i1 assms(3) by (simp add: inv_def)
  have first: "m_canceled (mpc s1) (resultch s1)"
    using i1 assms(3,4) by (rule canceled_first_start)
  then have seen: "resultch s1 = [canceled] \<or> m_received (mpc s1) = Some canceled"
    by (cases "mpc s1") auto
  have d1: "donech s1 = [] \<or> (\<exists>r. mpc s1 = Returned r)"
    using i1 assms(3) by (cases "mpc s1") (auto simp: inv_def)
  have ex: "\<exists>tr2 s2. run responder req tr2 s1 = Some s2 \<and> mpc s2 = Returned canceled"
  proof (cases "mpc s1")
    case M36
    let ?s2 = "s1\<lparr>mpc := Returned canceled, epc := E46, resultch := [], donech := [()]\<rparr>"
    from M36 first d1 have "run responder req [Invoker, Invoker, Invoker] s1 = Some ?s2"
      by (auto simp: invoker_step_def send_def recv_def)
    moreover have "mpc ?s2 = Returned canceled" by simp
    ultimately show ?thesis by blast
  next
    case M53
    let ?s2 = "s1\<lparr>mpc := Returned canceled, resultch := [], donech := [()]\<rparr>"
    from M53 first d1 have "run responder req [Invoker, Invoker] s1 = Some ?s2"
      by (auto simp: invoker_step_def send_def recv_def)
    moreover have "mpc ?s2 = Returned canceled" by simp
    ultimately show ?thesis by blast
  next
    case (M57 r)
    let ?s2 = "s1\<lparr>mpc := Returned canceled, donech := [()]\<rparr>"
    from M57 first d1 have "run responder req [Invoker] s1 = Some ?s2"
      by (auto simp: invoker_step_def send_def)
    moreover have "mpc ?s2 = Returned canceled" by simp
    ultimately show ?thesis by blast
  next
    case (Returned r)
    with first have "run responder req [] s1 = Some s1" "mpc s1 = Returned canceled"
      by simp_all
    then show ?thesis by blast
  qed (use first in simp_all)
  have later: "(\<forall>r. mpc s2 = Returned r \<longrightarrow> r = canceled) \<and>
            (mpc s2 = Returned canceled \<or> fire responder req Invoker s2 \<noteq> None)"
    if r2: "run responder req tr2 s1 = Some s2" for tr2 s2
  proof -
    have i2: "inv responder req s2"
      using assms(1) i1 r2 by (rule inv_run)
    have f2: "m_canceled (mpc s2) (resultch s2)"
      using first r2 by (rule canceled_first_run)
    from i2 f2 show ?thesis
      by (cases "mpc s2"; cases "wpc s2")
         (auto simp: inv_def invoker_step_def send_def recv_def)
  qed
  from cl seen ex later show ?thesis
    unfolding canceled_def by (intro conjI allI impI) blast+
qed

text \<open>
  Claim C1, amended, at a run in which the watcher writes before the executor is started.
\<close>

theorem watcher_first_returns_canceled_witness:
  "Cancel cancelable_request \<noteq> None \<and>
   run (NewStringResponder 200 ''pong'') cancelable_request
     [Invoker, Invoker, Invoker, Invoker, Watcher case_Cancel, Watcher case_Cancel]
     (init cancelable_request True)
     = Some \<lparr>mpc = M36, wpc = W_sent, epc = E0, resultch = [canceled], donech = [],
             closed = True\<rparr> \<and>
   run (NewStringResponder 200 ''pong'') cancelable_request
     [Invoker, Executor, Invoker, Invoker, Executor]
     \<lparr>mpc = M36, wpc = W_sent, epc = E0, resultch = [canceled], donech = [],
       closed = True\<rparr>
     = Some \<lparr>mpc = Returned (None, Some (errorString ''request canceled'')), wpc = W_sent,
             epc = E_sent,
             resultch = [(Some (NewStringResponse 200 ''pong''), None)], donech = [()],
             closed = True\<rparr>"
proof -
  let ?R = "NewStringResponder 200 ''pong''"
  let ?s1 = "\<lparr>mpc = M36, wpc = W_sent, epc = E0, resultch = [canceled], donech = [],
             closed = True\<rparr>"
  let ?s2 = "\<lparr>mpc = Returned (None, Some (errorString ''request canceled'')), wpc = W_sent,
             epc = E_sent,
             resultch = [(Some (NewStringResponse 200 ''pong''), None)], donech = [()],
             closed = True\<rparr>"
  have h1: "Cancel cancelable_request \<noteq> None"
    by (simp add: cancelable_request_def)
  have h2: "run ?R cancelable_request
     [Invoker, Invoker, Invoker, Invoker, Watcher case_Cancel, Watcher case_Cancel]
     (init cancelable_request True) = Some ?s1"
    by (simp add: cancelable_request_def init_def invoker_step_def watcher_step_def
          send_def recv_def)
  have h3: "wpc ?s1 = W_sent" by simp
  have h4: "epc ?s1 \<noteq> E_sent" by simp
  have h5: "run ?R cancelable_request [Invoker, Executor, Invoker, Invoker, Executor] ?s1 = Some ?s2"
    by (simp add: cancelable_request_def invoker_step_def executor_step_def
          send_def recv_def NewStringResponder_def ResponderFromResponse_def canceled_def)
  note t = watcher_first_returns_canceled[OF h1 h2 h3 h4]
  from t h1 h2 h5 show ?thesis by (intro conjI)
qed

text \<open>
  Claim C1 as stated fails: the caller closes \<open>req.Cancel\<close> while the responder has
  not completed (the executor stands at line 46), the executor then completes and writes
  before the watcher is scheduled, and the invoker returns the responder's result.
\<close>

theorem cancel_before_completion_counterexample:
  "run (NewStringResponder 200 ''pong'') cancelable_request
     [Invoker, Invoker, Invoker, Invoker, Invoker, Caller_closes]
     (init cancelable_request False)
     = Some \<lparr>mpc = M53, wpc = W26, epc = E46, resultch = [], donech = [], closed = True\<rparr> \<and>
   run (NewStringResponder 200 ''pong'') cancelable_request
     [Executor, Executor, Invoker, Invoker]
     \<lparr>mpc = M53, wpc = W26, epc = E46, resultch = [], donech = [], closed = True\<rparr>
     = Some \<lparr>mpc = Returned (Some (NewStringResponse 200 ''pong''), None), wpc = W26,
             epc = E_sent, resultch = [], donech = [()], closed = True\<rparr> \<and>
   (Some (NewStringResponse 200 ''pong''), None)
     \<noteq> (None, Some (errorString ''request canceled''))"
  by (simp add: cancelable_request_def init_def invoker_step_def executor_step_def
        caller_closes_def send_def recv_def NewStringResponder_def ResponderFromResponse_def)




text \<open>
  Claim C5, amended. For a request with a cancellation channel no run ends in a panic of
  the caller, and a returned pair is the cancellation's pair, or the pair made from a
  recovered panic value other than nil, or the pair that the responder itself returned;
  the first two are \<open>(nil, error)\<close> pairs. For a request without a cancellation
  channel a returned pair is the responder's own, and a panic of the responder is not
  recovered: it unwinds into the caller of \<open>runCancelable\<close>.
\<close>

theorem failures_of_runCancelable:
  assumes "run responder req tr (init req c) = Some s"
  shows "(Cancel req \<noteq> None \<longrightarrow>
            (\<forall>f. mpc s \<noteq> Panicked f) \<and>
            (\<forall>r. mpc s = Returned r \<longrightarrow>
               r = canceled \<or>
               (\<exists>v. responder req = Panics v \<and> v \<noteq> FNil \<and> r = recovered v) \<or>
               responder req = Returns (fst r) (snd r))) \<and>
         fst canceled = None \<and> snd canceled \<noteq> None \<and>
         (\<forall>v. fst (recovered v) = None \<and> snd (recovered v) \<noteq> None) \<and>
         (Cancel req = None \<longrightarrow>
            (\<forall>r. mpc s = Returned r \<longrightarrow> responder req = Returns (fst r) (snd r)) \<and>
            (\<forall>f. mpc s = Panicked f \<longrightarrow> responder req = Panics f) \<and>
            (\<forall>f. responder req = Panics f \<longrightarrow>
               run responder req [Invoker, Invoker] (init req c)
                 = Some ((init req c)\<lparr>mpc := Panicked f\<rparr>)))"
proof -
  have conc: "(\<forall>f. mpc s \<noteq> Panicked f) \<and>
            (\<forall>r. mpc s = Returned r \<longrightarrow>
               r = canceled \<or>
               (\<exists>v. responder req = Panics v \<and> v \<noteq> FNil \<and> r = recovered v) \<or>
               responder req = Returns (fst r) (snd r))" if c: "Cancel req \<noteq> None"
  proof -
    have i: "inv responder req s"
      using c assms by (rule inv_reachable)
    have np: "\<forall>f. mpc s \<noteq> Panicked f"
      using i by (cases "mpc s") (auto simp: inv_def)
    have "r = canceled \<or>
               (\<exists>v. responder req = Panics v \<and> v \<noteq> FNil \<and> r = recovered v) \<or>
               responder req = Returns (fst r) (snd r)" if "mpc s = Returned r" for r
      using i that
      by (cases "wpc s"; cases "epc s")
         (auto simp: inv_def exec_result_def split: call.splits if_splits)
    with np show ?thesis by blast
  qed
  have direct: "(\<forall>r. mpc s = Returned r \<longrightarrow> responder req = Returns (fst r) (snd r)) \<and>
            (\<forall>f. mpc s = Panicked f \<longrightarrow> responder req = Panics f) \<and>
            (\<forall>f. responder req = Panics f \<longrightarrow>
               run responder req [Invoker, Invoker] (init req c)
                 = Some ((init req c)\<lparr>mpc := Panicked f\<rparr>))" if n: "Cancel req = None"
  proof -
    from inv_direct_run[OF n inv_direct_init[OF n] assms]
    have d: "inv_direct responder req s" by blast
    have "run responder req [Invoker, Invoker] (init req c)
                 = Some ((init req c)\<lparr>mpc := Panicked f\<rparr>)" if "responder req = Panics f" for f
      using n that by (simp add: init_def invoker_step_def)
    with d show ?thesis by (auto simp: inv_direct_def)
  qed
  have vals: "fst canceled = None \<and> snd canceled \<noteq> None \<and>
         (\<forall>v. fst (recovered v) = None \<and> snd (recovered v) \<noteq> None)"
    by (simp add: canceled_def recovered_def)
  from conc direct vals show ?thesis by blast
qed

text \<open>
  Claim C5, amended, at the responder that panics with \<open>"boom"\<close> and a request with
  a cancellation channel.
\<close>

theorem failures_of_runCancelable_witness:
  "run (panicking (FStr (STR ''boom''))) cancelable_request
     [Invoker, Invoker, Invoker, Invoker, Invoker, Executor, Executor, Executor,
      Invoker, Invoker] (init cancelable_request False)
     = Some \<lparr>mpc = Returned (recovered (FStr (STR ''boom''))),
             wpc = W26, epc = E_sent, resultch = [], donech = [()], closed = False\<rparr> \<and>
   Cancel cancelable_request \<noteq> None \<and>
   fst (recovered (FStr (STR ''boom''))) = None \<and> snd (recovered (FStr (STR ''boom''))) \<noteq> None"
proof -
  let ?R = "panicking (FStr (STR ''boom''))"
  let ?s = "\<lparr>mpc = Returned (recovered (FStr (STR ''boom''))),
             wpc = W26, epc = E_sent, resultch = [], donech = [()], closed = False\<rparr>"
  have h: "run ?R cancelable_request
     [Invoker, Invoker, Invoker, Invoker, Invoker, Executor, Executor, Executor,
      Invoker, Invoker] (init cancelable_request False) = Some ?s"
    by (simp add: cancelable_request_def init_def invoker_step_def executor_step_def
          send_def recv_def panicking_def)
  have c: "Cancel cancelable_request \<noteq> None"
    by (simp add: cancelable_request_def)
  from failures_of_runCancelable[OF h] h c
  show ?thesis by simp
qed

text \<open>
  Claim C5 as stated fails: without a cancellation channel, the panic of the responder
  reaches the caller.
\<close>

theorem unrecovered_panic_counterexample:
  "Cancel plain_request = None \<and>
   run (panicking (FStr (STR ''boom''))) plain_request [Invoker, Invoker] (init plain_request False)
     = Some \<lparr>mpc = Panicked (FStr (STR ''boom'')), wpc = W0, epc = E0, resultch = [],
             donech = [], closed = False\<rparr>"
  by (simp add: plain_request_def init_def invoker_step_def panicking_def)

end
